theory Spec2Isabelle
  imports Main
begin

section \<open>Privacy Badger utilities: domain hierarchy and third-party checks\<close>

text \<open>
  A shallow embedding of \<^verbatim>\<open>src/lib/utils.js\<close>: \<^verbatim>\<open>isThirdPartyURI\<close>,
  \<^verbatim>\<open>getBaseDomain\<close>, \<^verbatim>\<open>getParentDomain\<close>, \<^verbatim>\<open>checkEachParentDomainString\<close> and
  \<^verbatim>\<open>isThirdPartyChannel\<close>.

  The module calls three collaborators that are not part of it: the platform's effective
  TLD service (\<^verbatim>\<open>Services.eTLD\<close>), the platform's \<^verbatim>\<open>mozIThirdPartyUtil\<close> and
  \<^verbatim>\<open>ABPUtils.makeURI\<close>. They are parameters of the model. A JavaScript exception is a
  value \<open>Inl e\<close> of a sum type; a call that may have an effect (the string callback, the
  URI parser, the third-party service) takes the state of the world and returns the new
  one, so that "the callback was not called" is "the state is the one before the call",
  for every callback.
\<close>

subsection \<open>Strings and arrays of JavaScript\<close>

text \<open>
  \<^verbatim>\<open>s.split('.')\<close>: the pieces of \<open>s\<close> between the dots. The result is never empty:
  \<^verbatim>\<open>"".split('.')\<close> is \<^verbatim>\<open>[""]\<close>, and a leading or trailing dot gives an empty piece.
\<close>

fun split_dot :: "string \<Rightarrow> string list" where
  "split_dot [] = [[]]"
| "split_dot (c # cs) =
     (if c = CHR ''.'' then [] # split_dot cs
      else (case split_dot cs of
              [] \<Rightarrow> [[c]]
            | l # ls \<Rightarrow> (c # l) # ls))"

text \<open>\<^verbatim>\<open>a.join('.')\<close>: the empty array joins to the empty string.\<close>

fun join_dot :: "string list \<Rightarrow> string" where
  "join_dot [] = []"
| "join_dot [l] = l"
| "join_dot (l # l' # ls) = l @ CHR ''.'' # join_dot (l' # ls)"

text \<open>
  \<^verbatim>\<open>a.shift()\<close> removes the first element, and leaves an empty array empty (it returns
  \<^verbatim>\<open>undefined\<close> there, which the module never reads). \<^verbatim>\<open>a.slice(1)\<close> is the copy of
  \<open>a\<close> without its first element.
\<close>

definition shift :: "'a list \<Rightarrow> 'a list" where
  "shift a = (case a of [] \<Rightarrow> [] | x # xs \<Rightarrow> xs)"

definition slice1 :: "'a list \<Rightarrow> 'a list" where
  "slice1 a = drop 1 a"

text \<open>\<^verbatim>\<open>a.indexOf(x)\<close>: the first index of \<open>x\<close> in \<open>a\<close>, or \<open>-1\<close>.\<close>

fun indexOf :: "'a list \<Rightarrow> 'a \<Rightarrow> int" where
  "indexOf [] x = - 1"
| "indexOf (y # ys) x =
     (if y = x then 0
      else (let i = indexOf ys x in if i = - 1 then - 1 else i + 1))"

subsection \<open>Objects of the platform\<close>

text \<open>
  The exceptions the collaborators throw. The source names none of them: it lets them
  pass (or, in \<^verbatim>\<open>isThirdPartyChannel\<close>, catches every one); the three names are the
  ones the specification gives to the failures of the three collaborators.
\<close>

datatype error = DomainResolutionError | URLParseError | ContextLookupError

record nsIURI =
  spec :: string
  host :: string

record nsIChannel =
  URI :: nsIURI

text \<open>
  \<^verbatim>\<open>Services.eTLD\<close>: a lookup in the static public suffix list, so a function of the
  URI alone; each of its two methods returns a string or throws.
\<close>

record eTLDService =
  eTLD_getPublicSuffix :: "nsIURI \<Rightarrow> error + string"
  eTLD_getBaseDomain :: "nsIURI \<Rightarrow> error + string"

text \<open>A call with a possible effect on the world \<open>'w\<close>: its outcome and the new world.\<close>

type_synonym ('w, 'a) call = "'w \<Rightarrow> (error + 'a) \<times> 'w"

record 'w mozIThirdPartyUtil =
  tpu_isThirdPartyURI :: "nsIURI \<Rightarrow> nsIURI \<Rightarrow> ('w, bool) call"
  tpu_getBaseDomain :: "nsIURI \<Rightarrow> error + string"
  tpu_isThirdPartyChannel :: "nsIChannel \<Rightarrow> ('w, bool) call"

subsection \<open>The module\<close>

definition fakeThirdPartyURLs :: "string list" where
  "fakeThirdPartyURLs = [''http://localhost:8099/test-request-3rd-party-cookieblock.sjs'']"

text \<open>
  \<^verbatim>\<open>isThirdPartyURI\<close> (lines 154 to 161). \<open>makeURI\<close> is \<^verbatim>\<open>ABPUtils.makeURI\<close>; an
  exception of the parser or of the service leaves the function at once.
\<close>

definition isThirdPartyURI ::
  "(string \<Rightarrow> ('w, nsIURI) call) \<Rightarrow> 'w mozIThirdPartyUtil \<Rightarrow> string \<Rightarrow> string \<Rightarrow> ('w, bool) call"
where
  "isThirdPartyURI makeURI ThirdPartyUtil uri docUri w =
     (if indexOf fakeThirdPartyURLs uri \<noteq> - 1 then (Inr True, w)
      else (case makeURI uri w of
              (Inl e, w1) \<Rightarrow> (Inl e, w1)
            | (Inr uri', w1) \<Rightarrow>
                (case makeURI docUri w1 of
                   (Inl e, w2) \<Rightarrow> (Inl e, w2)
                 | (Inr docUri', w2) \<Rightarrow> tpu_isThirdPartyURI ThirdPartyUtil uri' docUri' w2)))"

text \<open>\<^verbatim>\<open>exports.getBaseDomain = ThirdPartyUtil.getBaseDomain\<close> (line 169).\<close>

definition getBaseDomain :: "'w mozIThirdPartyUtil \<Rightarrow> nsIURI \<Rightarrow> error + string" where
  "getBaseDomain ThirdPartyUtil = tpu_getBaseDomain ThirdPartyUtil"

text \<open>
  \<^verbatim>\<open>getParentDomain\<close> (lines 179 to 191). The difference of the two lengths is a
  JavaScript number and may be negative, so it is taken in \<open>int\<close>.
\<close>

definition getParentDomain :: "eTLDService \<Rightarrow> nsIURI \<Rightarrow> error + string" where
  "getParentDomain eTLD uri =
     (case eTLD_getPublicSuffix eTLD uri of
        Inl e \<Rightarrow> Inl e
      | Inr suffix \<Rightarrow>
          (let suffixLength = length (split_dot suffix);
               hostArray = split_dot (host uri)
           in if int (length hostArray) - int suffixLength < 3
              then eTLD_getBaseDomain eTLD uri
              else Inr (join_dot (slice1 hostArray))))"

text \<open>
  The loop of \<^verbatim>\<open>checkEachParentDomainString\<close> (lines 214 to 219). The callback returns
  a value that the loop tests for truth, or throws, which ends the walk.
\<close>

function parent_loop ::
  "nat \<Rightarrow> (string \<Rightarrow> ('w, bool) call) \<Rightarrow> string list \<Rightarrow> ('w, bool) call"
where
  "parent_loop suffixLength stringCallback hostArray w =
     (if int (length hostArray) - int suffixLength > 0 then
        (case stringCallback (join_dot hostArray) w of
           (Inl e, w') \<Rightarrow> (Inl e, w')
         | (Inr result, w') \<Rightarrow>
             if result then (Inr True, w')
             else parent_loop suffixLength stringCallback (shift hostArray) w')
      else (Inr False, w))"
  by pat_completeness auto
termination
  by (relation "measure (\<lambda>(n, cb, hostArray, w). length hostArray)")
     (auto simp: shift_def split: list.splits)

declare parent_loop.simps [simp del]

text \<open>
  \<^verbatim>\<open>checkEachParentDomainString\<close> (lines 204 to 220). The third argument may be
  left out (\<open>None\<close>); \<^verbatim>\<open>ignoreSelf || false\<close> then is false.
\<close>

definition checkEachParentDomainString ::
  "eTLDService \<Rightarrow> nsIURI \<Rightarrow> (string \<Rightarrow> ('w, bool) call) \<Rightarrow> bool option \<Rightarrow> ('w, bool) call"
where
  "checkEachParentDomainString eTLD uri stringCallback ignoreSelf w =
     (let ignoreSelf' = (case ignoreSelf of None \<Rightarrow> False | Some b \<Rightarrow> b)
      in case eTLD_getPublicSuffix eTLD uri of
           Inl e \<Rightarrow> (Inl e, w)
         | Inr suffix \<Rightarrow>
             (let suffixLength = length (split_dot suffix);
                  hostArray = split_dot (host uri);
                  hostArray' = (if ignoreSelf' then shift hostArray else hostArray)
              in parent_loop suffixLength stringCallback hostArray' w))"

text \<open>\<^verbatim>\<open>isThirdPartyChannel\<close> (lines 227 to 235): the \<^verbatim>\<open>catch\<close> turns every exception
  of the service into \<^verbatim>\<open>false\<close>.\<close>

definition isThirdPartyChannel :: "'w mozIThirdPartyUtil \<Rightarrow> nsIChannel \<Rightarrow> ('w, bool) call" where
  "isThirdPartyChannel ThirdPartyUtil channel w =
     (if indexOf fakeThirdPartyURLs (spec (URI channel)) \<noteq> - 1 then (Inr True, w)
      else (case tpu_isThirdPartyChannel ThirdPartyUtil channel w of
              (Inl e, w') \<Rightarrow> (Inr False, w')
            | (Inr b, w') \<Rightarrow> (Inr b, w')))"

subsection \<open>Observing the calls of the callback\<close>

text \<open>
  The callback of a policy: it answers \<open>p x\<close> and has one effect, writing \<open>x\<close> at the
  end of the list of the strings it was called with. Run from the empty list, the final
  state of \<open>checkEachParentDomainString\<close> is the sequence of its invocations, in order.
\<close>

definition record_calls :: "(string \<Rightarrow> bool) \<Rightarrow> string \<Rightarrow> (string list, bool) call" where
  "record_calls p x log = (Inr (p x), log @ [x])"

definition invoked_on :: "eTLDService \<Rightarrow> nsIURI \<Rightarrow> (string \<Rightarrow> bool) \<Rightarrow> bool option \<Rightarrow> string list" where
  "invoked_on eTLD uri p ignoreSelf =
     snd (checkEachParentDomainString eTLD uri (record_calls p) ignoreSelf [])"

definition returned :: "eTLDService \<Rightarrow> nsIURI \<Rightarrow> (string \<Rightarrow> bool) \<Rightarrow> bool option \<Rightarrow> error + bool" where
  "returned eTLD uri p ignoreSelf =
     fst (checkEachParentDomainString eTLD uri (record_calls p) ignoreSelf [])"

text \<open>A collaborator without effect: the world stays as it is.\<close>

definition pure_call :: "('a \<Rightarrow> error + 'b) \<Rightarrow> 'a \<Rightarrow> ('w, 'b) call" where
  "pure_call f x w = (f x, w)"

subsection \<open>The platform's third-party check\<close>

text \<open>
  Modelled from the spec: \<^verbatim>\<open>ThirdPartyUtil.isThirdPartyURI\<close>, the method of the
  platform's \<^verbatim>\<open>mozIThirdPartyUtil\<close> that \<^verbatim>\<open>isThirdPartyURI\<close> ends with, is not in
  \<^verbatim>\<open>src/\<close>. The specification (4.2, step 3): "Compare getBaseDomain(requestURI.host)
  and getBaseDomain(documentURI.host); return true iff they differ." A base domain that
  cannot be computed is the failure of the check.
\<close>

definition spec_isThirdPartyURI ::
  "(nsIURI \<Rightarrow> error + string) \<Rightarrow> nsIURI \<Rightarrow> nsIURI \<Rightarrow> ('w, bool) call" where
  "spec_isThirdPartyURI baseDomain requestURI documentURI w =
     (case baseDomain requestURI of
        Inl e \<Rightarrow> (Inl e, w)
      | Inr b1 \<Rightarrow>
          (case baseDomain documentURI of
             Inl e \<Rightarrow> (Inl e, w)
           | Inr b2 \<Rightarrow> (Inr (b1 \<noteq> b2), w)))"

subsection \<open>The public suffix oracle\<close>

text \<open>
  Modelled from the spec: the two platform services that compute public suffixes and base
  domains, \<^verbatim>\<open>Services.eTLD\<close> and \<^verbatim>\<open>ThirdPartyUtil.getBaseDomain\<close>, are not in
  \<^verbatim>\<open>src/\<close>. The specification has one oracle for both. Its data model (3):
  "PublicSuffix: the longest registry-controlled suffix of a hostname" and "BaseDomain:
  PublicSuffix plus exactly one additional label to its left"; and (4.1) \<open>getBaseDomain\<close>
  "delegates directly to the PublicSuffixOracle's base-domain computation" and fails for
  a host that is not resolvable. Which sequences of labels are registry-controlled is the
  public suffix list itself, the parameter \<open>registry\<close>. A host with no
  registry-controlled suffix has no public suffix, and a host with no label to the left
  of its public suffix has no base domain.
\<close>

fun longest_suffix :: "(string list \<Rightarrow> bool) \<Rightarrow> string list \<Rightarrow> string list option" where
  "longest_suffix registry [] = None"
| "longest_suffix registry (l # ls) =
     (if registry (l # ls) then Some (l # ls) else longest_suffix registry ls)"

definition spec_publicSuffix :: "(string list \<Rightarrow> bool) \<Rightarrow> nsIURI \<Rightarrow> error + string" where
  "spec_publicSuffix registry u =
     (case longest_suffix registry (split_dot (host u)) of
        None \<Rightarrow> Inl DomainResolutionError
      | Some s \<Rightarrow> Inr (join_dot s))"

definition spec_baseDomain :: "(string list \<Rightarrow> bool) \<Rightarrow> nsIURI \<Rightarrow> error + string" where
  "spec_baseDomain registry u =
     (let labels = split_dot (host u)
      in case longest_suffix registry labels of
           None \<Rightarrow> Inl DomainResolutionError
         | Some s \<Rightarrow>
             if length labels \<le> length s then Inl DomainResolutionError
             else Inr (join_dot (drop (length labels - (length s + 1)) labels)))"

definition spec_eTLD :: "(string list \<Rightarrow> bool) \<Rightarrow> eTLDService" where
  "spec_eTLD registry =
     \<lparr>eTLD_getPublicSuffix = spec_publicSuffix registry,
      eTLD_getBaseDomain = spec_baseDomain registry\<rparr>"

definition spec_ThirdPartyUtil ::
  "(string list \<Rightarrow> bool) \<Rightarrow> (nsIChannel \<Rightarrow> ('w, bool) call) \<Rightarrow> 'w mozIThirdPartyUtil" where
  "spec_ThirdPartyUtil registry lookup =
     \<lparr>tpu_isThirdPartyURI = spec_isThirdPartyURI (spec_baseDomain registry),
      tpu_getBaseDomain = spec_baseDomain registry,
      tpu_isThirdPartyChannel = lookup\<rparr>"

subsection \<open>Auxiliary functions of the proofs\<close>

text \<open>
  The array the loop starts from, the strings the loop would test on it if the callback
  never answered true, and the part of such a list up to the first answer true.
\<close>

definition walk_start :: "bool option \<Rightarrow> string \<Rightarrow> string list" where
  "walk_start ignoreSelf h =
     (if ignoreSelf = Some True then shift (split_dot h) else split_dot h)"

fun chain :: "nat \<Rightarrow> string list \<Rightarrow> string list" where
  "chain n [] = []"
| "chain n (l # ls) = (if n < Suc (length ls) then join_dot (l # ls) # chain n ls else [])"

fun first_hit :: "('a \<Rightarrow> bool) \<Rightarrow> 'a list \<Rightarrow> 'a list" where
  "first_hit p [] = []"
| "first_hit p (x # xs) = (if p x then [x] else x # first_hit p xs)"

subsection \<open>Collaborators of the examples\<close>

text \<open>
  A small effective TLD service for the examples: every public suffix has two labels (as
  \<^verbatim>\<open>co.uk\<close>), the base domain is the suffix and one more label, the empty host has no
  suffix and a host of fewer than three labels has no base domain. A parser for
  \<^verbatim>\<open>http\<close> URLs and a third-party service whose channel lookup always fails, and
  leaves a trace of the call.
\<close>

definition example_eTLD :: eTLDService where
  "example_eTLD =
     \<lparr>eTLD_getPublicSuffix = (\<lambda>u.
        if host u = [] then Inl DomainResolutionError
        else Inr (join_dot (drop (length (split_dot (host u)) - 2) (split_dot (host u))))),
      eTLD_getBaseDomain = (\<lambda>u.
        if length (split_dot (host u)) < 3 then Inl DomainResolutionError
        else Inr (join_dot (drop (length (split_dot (host u)) - 3) (split_dot (host u)))))\<rparr>"

definition example_makeURI :: "string \<Rightarrow> error + nsIURI" where
  "example_makeURI url =
     (if take 7 url = ''http://''
      then Inr \<lparr>spec = url,
                host = takeWhile (\<lambda>c. c \<noteq> CHR ''/'' \<and> c \<noteq> CHR '':'') (drop 7 url)\<rparr>
      else Inl URLParseError)"

definition example_ThirdPartyUtil :: "string list mozIThirdPartyUtil" where
  "example_ThirdPartyUtil =
     \<lparr>tpu_isThirdPartyURI = spec_isThirdPartyURI (eTLD_getBaseDomain example_eTLD),
      tpu_getBaseDomain = eTLD_getBaseDomain example_eTLD,
      tpu_isThirdPartyChannel =
        (\<lambda>channel w. (Inl ContextLookupError, w @ [spec (URI channel)]))\<rparr>"

definition uri_of :: "string \<Rightarrow> nsIURI" where
  "uri_of h = \<lparr>spec = ''http://'' @ h @ ''/'', host = h\<rparr>"

definition fixture_channel :: nsIChannel where
  "fixture_channel =
     \<lparr>URI = \<lparr>spec = ''http://localhost:8099/test-request-3rd-party-cookieblock.sjs'',
             host = ''localhost''\<rparr>\<rparr>"

definition example_channel :: nsIChannel where
  "example_channel =
     \<lparr>URI = \<lparr>spec = ''http://tracker.example.co.uk/pixel.gif'',
             host = ''tracker.example.co.uk''\<rparr>\<rparr>"

definition example_registry :: "string list \<Rightarrow> bool" where
  "example_registry ls = (ls = [''uk''] \<or> ls = [''co'', ''uk''] \<or> ls = [''com''])"

definition never :: "string \<Rightarrow> bool" where
  "never x = False"

definition always :: "string \<Rightarrow> bool" where
  "always x = True"

definition is_radio :: "string \<Rightarrow> bool" where
  "is_radio x = (x = ''radio.bbc.co.uk'')"

definition recording_makeURI :: "string \<Rightarrow> (string list, nsIURI) call" where
  "recording_makeURI url w = (example_makeURI url, w @ [url])"

section \<open>Properties\<close>

subsection \<open>Splitting and joining\<close>

lemma split_dot_nonempty [simp]: "split_dot s \<noteq> []"
  by (induction s) (auto split: list.splits)

lemma split_dot_dotfree: "l \<in> set (split_dot s) \<Longrightarrow> CHR ''.'' \<notin> set l"
  by (induction s arbitrary: l) (auto split: list.splits if_splits)

lemma join_split_dot [simp]: "join_dot (split_dot s) = s"
proof (induction s)
  case Nil
  show ?case by simp
next
  case (Cons c cs)
  show ?case
  proof (cases "c = CHR ''.''")
    case True
    obtain l ls where e: "split_dot cs = l # ls" by (cases "split_dot cs") auto
    with Cons True show ?thesis by simp
  next
    case False
    obtain l ls where e: "split_dot cs = l # ls" by (cases "split_dot cs") auto
    with Cons False show ?thesis by (cases ls) auto
  qed
qed

lemma split_dot_append:
  "CHR ''.'' \<notin> set l \<Longrightarrow> split_dot (l @ s) = (l @ hd (split_dot s)) # tl (split_dot s)"
  by (induction l) (auto split: list.splits)

lemma split_join_dot:
  "xs \<noteq> [] \<Longrightarrow> (\<And>l. l \<in> set xs \<Longrightarrow> CHR ''.'' \<notin> set l) \<Longrightarrow> split_dot (join_dot xs) = xs"
proof (induction xs rule: join_dot.induct)
  case 1
  then show ?case by simp
next
  case (2 l)
  then have "CHR ''.'' \<notin> set l" by simp
  from split_dot_append [OF this, of "[]"] show ?case by simp
next
  case (3 l l' ls)
  then have d: "CHR ''.'' \<notin> set l" by simp
  have "split_dot (join_dot (l' # ls)) = l' # ls" using 3 by simp
  then show ?case using split_dot_append [OF d, of "CHR ''.'' # join_dot (l' # ls)"] by simp
qed

lemma indexOf_ge: "- 1 \<le> indexOf xs x"
  by (induction xs) (auto simp: Let_def)

lemma indexOf_mem: "indexOf xs x \<noteq> - 1 \<longleftrightarrow> x \<in> set xs"
proof (induction xs)
  case Nil
  show ?case by simp
next
  case (Cons y ys)
  have "- 1 \<le> indexOf ys x" by (rule indexOf_ge)
  with Cons show ?case by (auto simp: Let_def)
qed

subsection \<open>The loop with a recording callback\<close>

lemma parent_loop_record_calls:
  "parent_loop n (record_calls p) xs log =
     (Inr (\<exists>x \<in> set (chain n xs). p x), log @ first_hit p (chain n xs))"
proof (induction xs arbitrary: log)
  case Nil
  show ?case by (simp add: parent_loop.simps)
next
  case (Cons l ls)
  show ?case
    by (subst parent_loop.simps) (auto simp: record_calls_def shift_def Cons)
qed

lemma parent_loop_too_short:
  "length xs \<le> n \<Longrightarrow> parent_loop n cb xs w = (Inr False, w)"
  by (simp add: parent_loop.simps)

lemma chain_labels:
  "(\<And>l. l \<in> set xs \<Longrightarrow> CHR ''.'' \<notin> set l) \<Longrightarrow>
   map (\<lambda>x. length (split_dot x)) (chain n xs) = rev [Suc n ..< Suc (length xs)]"
proof (induction xs)
  case Nil
  show ?case by simp
next
  case (Cons l ls)
  have "split_dot (join_dot (l # ls)) = l # ls"
    by (rule split_join_dot) (use Cons.prems in auto)
  moreover have "map (\<lambda>x. length (split_dot x)) (chain n ls) = rev [Suc n ..< Suc (length ls)]"
    by (rule Cons.IH) (use Cons.prems in auto)
  ultimately show ?case by simp
qed

lemma first_hit_prefix: "\<exists>ys. cs = first_hit p cs @ ys"
  by (induction cs) auto

lemma first_hit_butlast: "x \<in> set (butlast (first_hit p cs)) \<Longrightarrow> \<not> p x"
  by (induction cs) (auto split: if_splits)


lemma first_hit_hd: "cs \<noteq> [] \<Longrightarrow> first_hit p cs \<noteq> [] \<and> hd (first_hit p cs) = hd cs"
  by (cases cs) auto

lemma walk_start_dotfree: "l \<in> set (walk_start ig h) \<Longrightarrow> CHR ''.'' \<notin> set l"
  using split_dot_dotfree [of l h] split_dot_nonempty [of h]
  by (cases "split_dot h") (auto simp: walk_start_def shift_def split: if_splits)

lemma walk_start_length:
  "length (walk_start ig h) =
     (if ig = Some True then length (split_dot h) - 1 else length (split_dot h))"
  by (cases "split_dot h") (auto simp: walk_start_def shift_def)

lemma check_record_calls:
  assumes "eTLD_getPublicSuffix eTLD uri = Inr suffix"
  shows "checkEachParentDomainString eTLD uri (record_calls p) ig [] =
     (Inr (\<exists>x \<in> set (chain (length (split_dot suffix)) (walk_start ig (host uri))). p x),
      first_hit p (chain (length (split_dot suffix)) (walk_start ig (host uri))))"
proof -
  have "(if (case ig of None \<Rightarrow> False | Some b \<Rightarrow> b) then shift (split_dot (host uri))
         else split_dot (host uri)) = walk_start ig (host uri)"
    by (cases ig) (auto simp: walk_start_def)
  then show ?thesis
    using assms by (simp add: checkEachParentDomainString_def parent_loop_record_calls Let_def)
qed

lemma invoked_on_eq:
  "eTLD_getPublicSuffix eTLD uri = Inr suffix \<Longrightarrow>
   invoked_on eTLD uri p ig =
     first_hit p (chain (length (split_dot suffix)) (walk_start ig (host uri)))"
  by (simp add: invoked_on_def check_record_calls)

lemma returned_eq:
  "eTLD_getPublicSuffix eTLD uri = Inr suffix \<Longrightarrow>
   returned eTLD uri p ig =
     Inr (\<exists>x \<in> set (chain (length (split_dot suffix)) (walk_start ig (host uri))). p x)"
  by (simp add: returned_def check_record_calls)

lemma chain_labels_walk:
  "map (\<lambda>x. length (split_dot x)) (chain n (walk_start ig h)) =
     rev [Suc n ..< Suc (length (walk_start ig h))]"
  by (rule chain_labels) (rule walk_start_dotfree)

lemma invoked_labels:
  assumes "eTLD_getPublicSuffix eTLD uri = Inr suffix"
  shows "\<exists>ks. map (\<lambda>x. length (split_dot x)) (invoked_on eTLD uri p ig) @ ks =
     rev [Suc (length (split_dot suffix)) ..< Suc (length (walk_start ig (host uri)))]"
proof -
  let ?cs = "chain (length (split_dot suffix)) (walk_start ig (host uri))"
  obtain ys where "?cs = first_hit p ?cs @ ys" using first_hit_prefix by blast
  then have "map (\<lambda>x. length (split_dot x)) ?cs =
      map (\<lambda>x. length (split_dot x)) (invoked_on eTLD uri p ig) @ map (\<lambda>x. length (split_dot x)) ys"
    using invoked_on_eq [OF assms, of p ig] by (metis map_append)
  then show ?thesis using chain_labels_walk by metis
qed

lemma invoked_label_bounds:
  assumes "eTLD_getPublicSuffix eTLD uri = Inr suffix"
    and "x \<in> set (invoked_on eTLD uri p ig)"
  shows "length (split_dot suffix) < length (split_dot x)"
    and "length (split_dot x) \<le> length (walk_start ig (host uri))"
proof -
  obtain ks where ks: "map (\<lambda>x. length (split_dot x)) (invoked_on eTLD uri p ig) @ ks =
     rev [Suc (length (split_dot suffix)) ..< Suc (length (walk_start ig (host uri)))]"
    using invoked_labels [OF assms(1)] by blast
  have "length (split_dot x) \<in> set (map (\<lambda>x. length (split_dot x)) (invoked_on eTLD uri p ig) @ ks)"
    using assms(2) by auto
  then have "length (split_dot x) \<in> set [Suc (length (split_dot suffix)) ..< Suc (length (walk_start ig (host uri)))]"
    unfolding ks by simp
  then show "length (split_dot suffix) < length (split_dot x)"
    and "length (split_dot x) \<le> length (walk_start ig (host uri))" by auto
qed



lemma first_hit_Bex: "(\<exists>x \<in> set (first_hit p cs). p x) \<longleftrightarrow> (\<exists>x \<in> set cs. p x)"
  by (induction cs) auto

lemma first_hit_ends_at_hit: "x \<in> set (first_hit p cs) \<Longrightarrow> p x \<Longrightarrow> p (last (first_hit p cs))"
  by (induction cs) (auto split: if_splits)

lemma invoked_distinct:
  assumes "eTLD_getPublicSuffix eTLD uri = Inr suffix"
  shows "distinct (invoked_on eTLD uri p ig)"
proof -
  obtain ks where ks: "map (\<lambda>x. length (split_dot x)) (invoked_on eTLD uri p ig) @ ks =
     rev [Suc (length (split_dot suffix)) ..< Suc (length (walk_start ig (host uri)))]"
    using invoked_labels [OF assms] by blast
  have "distinct (map (\<lambda>x. length (split_dot x)) (invoked_on eTLD uri p ig) @ ks)"
    unfolding ks by simp
  then have "distinct (map (\<lambda>x. length (split_dot x)) (invoked_on eTLD uri p ig))" by simp
  then show ?thesis by (simp add: distinct_map)
qed

lemma chain_hd: "n < length xs \<Longrightarrow> chain n xs \<noteq> [] \<and> hd (chain n xs) = join_dot xs"
  by (cases xs) auto

subsection \<open>The oracle of the specification\<close>

lemma longest_suffix_Some:
  "longest_suffix registry xs = Some s \<Longrightarrow>
   s \<noteq> [] \<and> length s \<le> length xs \<and> s = drop (length xs - length s) xs"
proof (induction xs)
  case Nil
  then show ?case by simp
next
  case (Cons l ls)
  show ?case
  proof (cases "registry (l # ls)")
    case True
    with Cons.prems show ?thesis by auto
  next
    case False
    with Cons.prems have "longest_suffix registry ls = Some s" by simp
    then have "s \<noteq> [] \<and> length s \<le> length ls \<and> s = drop (length ls - length s) ls"
      by (rule Cons.IH)
    then show ?thesis by (auto simp: Suc_diff_le)
  qed
qed

lemma longest_suffix_skip:
  "longest_suffix registry xs = Some s \<Longrightarrow> k \<le> length xs - length s \<Longrightarrow>
   longest_suffix registry (drop k xs) = Some s"
proof (induction xs arbitrary: k)
  case Nil
  then show ?case by simp
next
  case (Cons l ls)
  show ?case
  proof (cases k)
    case 0
    with Cons.prems show ?thesis by simp
  next
    case (Suc j)
    show ?thesis
    proof (cases "registry (l # ls)")
      case True
      with Cons.prems Suc show ?thesis by auto
    next
      case False
      with Cons.prems have a: "longest_suffix registry ls = Some s" by simp
      then have "length s \<le> length ls" using longest_suffix_Some by blast
      with Cons.prems(2) Suc have "j \<le> length ls - length s" by simp
      with a have "longest_suffix registry (drop j ls) = Some s" by (rule Cons.IH)
      with Suc show ?thesis by simp
    qed
  qed
qed

lemma drop_split_dotfree: "l \<in> set (drop k (split_dot h)) \<Longrightarrow> CHR ''.'' \<notin> set l"
  using split_dot_dotfree [of l h] by (auto dest: in_set_dropD)

subsection \<open>The examples, evaluated\<close>

lemma example_suffix_www:
  "eTLD_getPublicSuffix example_eTLD (uri_of ''www.radio.bbc.co.uk'') = Inr ''co.uk''"
  by (simp add: example_eTLD_def uri_of_def)

lemma example_walk_www:
  "checkEachParentDomainString example_eTLD (uri_of ''www.radio.bbc.co.uk'') (record_calls p) None [] =
     (if p ''www.radio.bbc.co.uk'' then (Inr True, [''www.radio.bbc.co.uk''])
      else if p ''radio.bbc.co.uk'' then (Inr True, [''www.radio.bbc.co.uk'', ''radio.bbc.co.uk''])
      else if p ''bbc.co.uk'' then (Inr True, [''www.radio.bbc.co.uk'', ''radio.bbc.co.uk'', ''bbc.co.uk''])
      else (Inr False, [''www.radio.bbc.co.uk'', ''radio.bbc.co.uk'', ''bbc.co.uk'']))"
  by (simp add: checkEachParentDomainString_def example_eTLD_def uri_of_def
      parent_loop.simps record_calls_def shift_def)

lemma example_parent_bbc:
  "getParentDomain example_eTLD (uri_of ''bbc.co.uk'') = Inr ''bbc.co.uk''"
  by (simp add: getParentDomain_def example_eTLD_def uri_of_def)

lemma example_suffix_radio:
  "eTLD_getPublicSuffix example_eTLD (uri_of ''radio.bbc.co.uk'') = Inr ''co.uk''"
  by (simp add: example_eTLD_def uri_of_def)

lemma example_suffix_bbc:
  "eTLD_getPublicSuffix example_eTLD (uri_of ''bbc.co.uk'') = Inr ''co.uk''"
  by (simp add: example_eTLD_def uri_of_def)

lemma example_suffix_co_uk:
  "eTLD_getPublicSuffix example_eTLD (uri_of ''co.uk'') = Inr ''co.uk''"
  by (simp add: example_eTLD_def uri_of_def)



lemma example_walk_radio_parents:
  "checkEachParentDomainString example_eTLD (uri_of ''radio.bbc.co.uk'') (record_calls p) (Some True) [] =
     (if p ''bbc.co.uk'' then (Inr True, [''bbc.co.uk'']) else (Inr False, [''bbc.co.uk'']))"
  by (simp add: checkEachParentDomainString_def example_eTLD_def uri_of_def
      parent_loop.simps record_calls_def shift_def)

lemma example_walk_bbc_parents:
  "checkEachParentDomainString example_eTLD (uri_of ''bbc.co.uk'') (record_calls p) (Some True) [] =
     (Inr False, [])"
  by (simp add: checkEachParentDomainString_def example_eTLD_def uri_of_def
      parent_loop.simps record_calls_def shift_def)

section \<open>The claims\<close>




text \<open>
  C2: for the host \<^verbatim>\<open>radio.bbc.co.uk\<close> whose public suffix is \<^verbatim>\<open>co.uk\<close> and a predicate
  that is always false, the callback is invoked exactly twice, on \<^verbatim>\<open>radio.bbc.co.uk\<close>
  and then on \<^verbatim>\<open>bbc.co.uk\<close>, and never on \<^verbatim>\<open>co.uk\<close>; the walk returns false.
\<close>

theorem C2_radio_bbc_co_uk:
  assumes "host uri = ''radio.bbc.co.uk''"
    and "eTLD_getPublicSuffix eTLD uri = Inr ''co.uk''"
  shows "checkEachParentDomainString eTLD uri (record_calls (\<lambda>x. False)) None [] =
      (Inr False, [''radio.bbc.co.uk'', ''bbc.co.uk'']) \<and>
    ''co.uk'' \<notin> set (invoked_on eTLD uri (\<lambda>x. False) None)"
  using assms
  by (simp add: invoked_on_def checkEachParentDomainString_def parent_loop.simps
      record_calls_def shift_def)

theorem C2_radio_bbc_co_uk_witness:
  "host (uri_of ''radio.bbc.co.uk'') = ''radio.bbc.co.uk'' \<and>
   eTLD_getPublicSuffix example_eTLD (uri_of ''radio.bbc.co.uk'') = Inr ''co.uk'' \<and>
   checkEachParentDomainString example_eTLD (uri_of ''radio.bbc.co.uk'') (record_calls (\<lambda>x. False)) None [] =
      (Inr False, [''radio.bbc.co.uk'', ''bbc.co.uk'']) \<and>
   ''co.uk'' \<notin> set (invoked_on example_eTLD (uri_of ''radio.bbc.co.uk'') (\<lambda>x. False) None)"
proof -
  have h: "host (uri_of ''radio.bbc.co.uk'') = ''radio.bbc.co.uk''" by (simp add: uri_of_def)
  from C2_radio_bbc_co_uk [OF h example_suffix_radio] h example_suffix_radio
  show ?thesis by blast
qed

text \<open>
  C3: for a valid URL \<open>u\<close> (the parser accepts it and the base domain of its URI can
  be computed), \<open>isThirdPartyURI(u, u)\<close> is false when \<open>u\<close> is not one of
  \<open>fakeThirdPartyURLs\<close>. When \<open>u\<close> is in that list the result is true for every
  document URL, and neither the parser nor the third-party service is called: whatever
  they are, the world is left as it was. The first half is about the platform's check,
  taken as the specification describes it (\<open>spec_isThirdPartyURI\<close>).
\<close>

theorem C3_self_and_fixture:
  "(uri \<in> set fakeThirdPartyURLs \<longrightarrow>
      isThirdPartyURI makeURI ThirdPartyUtil uri docUri w = (Inr True, w)) \<and>
   (uri \<notin> set fakeThirdPartyURLs \<and> parse uri = Inr u \<and>
    tpu_isThirdPartyURI tpu = spec_isThirdPartyURI (tpu_getBaseDomain tpu) \<and>
    tpu_getBaseDomain tpu u = Inr b \<longrightarrow>
      isThirdPartyURI (pure_call parse) tpu uri uri v = (Inr False, v))"
  by (simp add: isThirdPartyURI_def indexOf_mem pure_call_def spec_isThirdPartyURI_def)

theorem C3_self_and_fixture_witness:
  "''http://localhost:8099/test-request-3rd-party-cookieblock.sjs'' \<in> set fakeThirdPartyURLs \<and>
   isThirdPartyURI recording_makeURI example_ThirdPartyUtil
     ''http://localhost:8099/test-request-3rd-party-cookieblock.sjs''
     ''http://localhost:8099/index.html'' [] = (Inr True, []) \<and>
   ''http://www.example.co.uk/x'' \<notin> set fakeThirdPartyURLs \<and>
   example_makeURI ''http://www.example.co.uk/x'' =
     Inr \<lparr>spec = ''http://www.example.co.uk/x'', host = ''www.example.co.uk''\<rparr> \<and>
   tpu_isThirdPartyURI example_ThirdPartyUtil =
     spec_isThirdPartyURI (tpu_getBaseDomain example_ThirdPartyUtil) \<and>
   tpu_getBaseDomain example_ThirdPartyUtil
     \<lparr>spec = ''http://www.example.co.uk/x'', host = ''www.example.co.uk''\<rparr> = Inr ''example.co.uk'' \<and>
   isThirdPartyURI (pure_call example_makeURI) example_ThirdPartyUtil
     ''http://www.example.co.uk/x'' ''http://www.example.co.uk/x'' [] = (Inr False, [])"
proof -
  let ?f = "''http://localhost:8099/test-request-3rd-party-cookieblock.sjs''"
  let ?u = "''http://www.example.co.uk/x''"
  let ?x = "\<lparr>spec = ''http://www.example.co.uk/x'', host = ''www.example.co.uk''\<rparr>"
  have a: "?f \<in> set fakeThirdPartyURLs" by (simp add: fakeThirdPartyURLs_def)
  have b: "?u \<notin> set fakeThirdPartyURLs" by (simp add: fakeThirdPartyURLs_def)
  have c: "example_makeURI ?u = Inr ?x" by (simp add: example_makeURI_def)
  have d: "tpu_isThirdPartyURI example_ThirdPartyUtil =
      spec_isThirdPartyURI (tpu_getBaseDomain example_ThirdPartyUtil)"
    by (simp add: example_ThirdPartyUtil_def)
  have e: "tpu_getBaseDomain example_ThirdPartyUtil ?x = Inr ''example.co.uk''"
    by (simp add: example_ThirdPartyUtil_def example_eTLD_def)
  have "isThirdPartyURI recording_makeURI example_ThirdPartyUtil ?f
      ''http://localhost:8099/index.html'' [] = (Inr True, [])"
    by (rule C3_self_and_fixture [THEN conjunct1, THEN mp, OF a])
  moreover have "isThirdPartyURI (pure_call example_makeURI) example_ThirdPartyUtil ?u ?u [] =
      (Inr False, [])"
    using C3_self_and_fixture [where uri = ?u and parse = example_makeURI and u = ?x
        and tpu = example_ThirdPartyUtil and b = "''example.co.uk''" and v = "[]", THEN conjunct2]
      b c d e by blast
  ultimately show ?thesis using a b c d e by blast
qed

text \<open>
  C4: \<open>checkEachParentDomainString\<close> returns true exactly when an invocation of \<open>p\<close>
  returned true, and that invocation is the last one: every invocation before the last
  returned false, so \<open>p\<close> is never invoked after it has returned true. No string is
  tested twice.
\<close>

theorem C4_short_circuit:
  assumes "eTLD_getPublicSuffix eTLD uri = Inr suffix"
  shows "returned eTLD uri p ignoreSelf = Inr (\<exists>x \<in> set (invoked_on eTLD uri p ignoreSelf). p x) \<and>
    (\<forall>x \<in> set (butlast (invoked_on eTLD uri p ignoreSelf)). \<not> p x) \<and>
    ((\<exists>x \<in> set (invoked_on eTLD uri p ignoreSelf). p x) \<longrightarrow>
       p (last (invoked_on eTLD uri p ignoreSelf))) \<and>
    distinct (invoked_on eTLD uri p ignoreSelf)"
proof (intro conjI ballI impI)
  show "returned eTLD uri p ignoreSelf = Inr (\<exists>x \<in> set (invoked_on eTLD uri p ignoreSelf). p x)"
    by (simp add: returned_eq [OF assms] invoked_on_eq [OF assms] first_hit_Bex)
next
  fix x assume "x \<in> set (butlast (invoked_on eTLD uri p ignoreSelf))"
  then show "\<not> p x" by (simp add: invoked_on_eq [OF assms] first_hit_butlast)
next
  assume "\<exists>x \<in> set (invoked_on eTLD uri p ignoreSelf). p x"
  then show "p (last (invoked_on eTLD uri p ignoreSelf))"
    by (auto simp: invoked_on_eq [OF assms] intro: first_hit_ends_at_hit)
next
  show "distinct (invoked_on eTLD uri p ignoreSelf)" by (rule invoked_distinct [OF assms])
qed

theorem C4_short_circuit_witness:
  "eTLD_getPublicSuffix example_eTLD (uri_of ''www.radio.bbc.co.uk'') = Inr ''co.uk'' \<and>
   invoked_on example_eTLD (uri_of ''www.radio.bbc.co.uk'') is_radio None =
     [''www.radio.bbc.co.uk'', ''radio.bbc.co.uk''] \<and>
   returned example_eTLD (uri_of ''www.radio.bbc.co.uk'') is_radio None = Inr True \<and>
   \<not> is_radio ''www.radio.bbc.co.uk'' \<and>
   is_radio (last (invoked_on example_eTLD (uri_of ''www.radio.bbc.co.uk'') is_radio None)) \<and>
   distinct (invoked_on example_eTLD (uri_of ''www.radio.bbc.co.uk'') is_radio None)"
proof -
  let ?log = "invoked_on example_eTLD (uri_of ''www.radio.bbc.co.uk'') is_radio None"
  have log: "?log = [''www.radio.bbc.co.uk'', ''radio.bbc.co.uk'']"
    by (simp add: invoked_on_def example_walk_www is_radio_def)
  have hit: "\<exists>x \<in> set ?log. is_radio x" unfolding log by (simp add: is_radio_def)
  have early: "''www.radio.bbc.co.uk'' \<in> set (butlast ?log)" unfolding log by simp
  note c4 = C4_short_circuit [OF example_suffix_www, of is_radio None]
  from c4 hit have "returned example_eTLD (uri_of ''www.radio.bbc.co.uk'') is_radio None = Inr True"
    by simp
  moreover from c4 early have "\<not> is_radio ''www.radio.bbc.co.uk''" by blast
  moreover from c4 hit have "is_radio (last ?log)" by blast
  moreover from c4 have "distinct ?log" by blast
  ultimately show ?thesis using example_suffix_www log by blast
qed

text \<open>
  C5, as stated: for every valid host \<open>h\<close>, \<open>checkEachParentDomainString(h, p, true)\<close>
  never invokes \<open>p\<close> on \<open>h\<close> and does invoke \<open>p\<close> on the immediate parent of \<open>h\<close>.
  For the base domain \<^verbatim>\<open>bbc.co.uk\<close> the callback is not invoked at all: neither on
  \<^verbatim>\<open>co.uk\<close>, the host without its first label, nor on \<^verbatim>\<open>bbc.co.uk\<close>, which is what
  \<open>getParentDomain\<close> gives for it.
\<close>

theorem C5_base_domain_has_no_parent_call:
  "eTLD_getPublicSuffix example_eTLD (uri_of ''bbc.co.uk'') = Inr ''co.uk'' \<and>
   getParentDomain example_eTLD (uri_of ''bbc.co.uk'') = Inr ''bbc.co.uk'' \<and>
   join_dot (shift (split_dot ''bbc.co.uk'')) = ''co.uk'' \<and>
   checkEachParentDomainString example_eTLD (uri_of ''bbc.co.uk'') (record_calls never) (Some True) [] =
     (Inr False, []) \<and>
   ''bbc.co.uk'' \<notin> set (invoked_on example_eTLD (uri_of ''bbc.co.uk'') never (Some True)) \<and>
   ''co.uk'' \<notin> set (invoked_on example_eTLD (uri_of ''bbc.co.uk'') never (Some True))"
  by (simp add: example_suffix_bbc invoked_on_def example_walk_bbc_parents shift_def
      example_parent_bbc)

text \<open>
  C5, amended: \<open>checkEachParentDomainString(h, p, true)\<close> never invokes \<open>p\<close> on \<open>h\<close>
  itself; when \<open>h\<close> has at least two labels more than its public suffix, its first
  invocation of \<open>p\<close> is on the immediate parent of \<open>h\<close>, the host without its leftmost
  label.
\<close>

theorem C5_ignore_self:
  assumes "eTLD_getPublicSuffix eTLD uri = Inr suffix"
  shows "host uri \<notin> set (invoked_on eTLD uri p (Some True)) \<and>
    (length (split_dot suffix) + 2 \<le> length (split_dot (host uri)) \<longrightarrow>
       invoked_on eTLD uri p (Some True) \<noteq> [] \<and>
       hd (invoked_on eTLD uri p (Some True)) = join_dot (shift (split_dot (host uri))))"
proof (intro conjI impI)
  show "host uri \<notin> set (invoked_on eTLD uri p (Some True))"
  proof
    assume "host uri \<in> set (invoked_on eTLD uri p (Some True))"
    then have "length (split_dot (host uri)) \<le> length (walk_start (Some True) (host uri))"
      by (rule invoked_label_bounds(2) [OF assms])
    then show False
      by (cases "split_dot (host uri)") (simp_all add: walk_start_length)
  qed
next
  let ?n = "length (split_dot suffix)"
  assume "?n + 2 \<le> length (split_dot (host uri))"
  then have "?n < length (walk_start (Some True) (host uri))"
    by (simp add: walk_start_length)
  then have c: "chain ?n (walk_start (Some True) (host uri)) \<noteq> [] \<and>
      hd (chain ?n (walk_start (Some True) (host uri))) = join_dot (walk_start (Some True) (host uri))"
    by (rule chain_hd)
  then show "invoked_on eTLD uri p (Some True) \<noteq> []"
    and "hd (invoked_on eTLD uri p (Some True)) = join_dot (shift (split_dot (host uri)))"
    using first_hit_hd [of "chain ?n (walk_start (Some True) (host uri))" p]
    by (simp_all add: invoked_on_eq [OF assms] walk_start_def)
qed

theorem C5_ignore_self_witness:
  "eTLD_getPublicSuffix example_eTLD (uri_of ''radio.bbc.co.uk'') = Inr ''co.uk'' \<and>
   length (split_dot ''co.uk'') + 2 \<le> length (split_dot (host (uri_of ''radio.bbc.co.uk''))) \<and>
   host (uri_of ''radio.bbc.co.uk'') \<notin> set (invoked_on example_eTLD (uri_of ''radio.bbc.co.uk'') never (Some True)) \<and>
   invoked_on example_eTLD (uri_of ''radio.bbc.co.uk'') never (Some True) \<noteq> [] \<and>
   hd (invoked_on example_eTLD (uri_of ''radio.bbc.co.uk'') never (Some True)) =
     join_dot (shift (split_dot (host (uri_of ''radio.bbc.co.uk'')))) \<and>
   invoked_on example_eTLD (uri_of ''radio.bbc.co.uk'') never (Some True) = [''bbc.co.uk'']"
proof -
  have len: "length (split_dot ''co.uk'') + 2 \<le> length (split_dot (host (uri_of ''radio.bbc.co.uk'')))"
    by (simp add: uri_of_def)
  have log: "invoked_on example_eTLD (uri_of ''radio.bbc.co.uk'') never (Some True) = [''bbc.co.uk'']"
    by (simp add: invoked_on_def example_walk_radio_parents never_def)
  from C5_ignore_self [OF example_suffix_radio, of never] len example_suffix_radio log
  show ?thesis by blast
qed

text \<open>
  C6: in the sequence of the strings that \<open>checkEachParentDomainString\<close> tests, every
  entry has fewer labels than each entry before it, and no entry has fewer labels than
  the base domain, the public suffix and one label.
\<close>

theorem C6_chain_labels:
  assumes "eTLD_getPublicSuffix eTLD uri = Inr suffix"
  shows "sorted_wrt (\<lambda>a b. length (split_dot b) < length (split_dot a))
      (invoked_on eTLD uri p ignoreSelf) \<and>
    (\<forall>x \<in> set (invoked_on eTLD uri p ignoreSelf).
       length (split_dot suffix) + 1 \<le> length (split_dot x))"
proof (intro conjI ballI)
  obtain ks where ks: "map (\<lambda>x. length (split_dot x)) (invoked_on eTLD uri p ignoreSelf) @ ks =
     rev [Suc (length (split_dot suffix)) ..< Suc (length (walk_start ignoreSelf (host uri)))]"
    using invoked_labels [OF assms] by blast
  have "sorted_wrt (\<lambda>a b. b < a)
      (map (\<lambda>x. length (split_dot x)) (invoked_on eTLD uri p ignoreSelf) @ ks)"
    unfolding ks sorted_wrt_rev by (rule sorted_wrt_upt)
  then have "sorted_wrt (\<lambda>a b. b < a)
      (map (\<lambda>x. length (split_dot x)) (invoked_on eTLD uri p ignoreSelf))"
    by (simp add: sorted_wrt_append)
  then show "sorted_wrt (\<lambda>a b. length (split_dot b) < length (split_dot a))
      (invoked_on eTLD uri p ignoreSelf)"
    by (simp add: sorted_wrt_map)
next
  fix x assume "x \<in> set (invoked_on eTLD uri p ignoreSelf)"
  then show "length (split_dot suffix) + 1 \<le> length (split_dot x)"
    using invoked_label_bounds(1) [OF assms] by fastforce
qed

theorem C6_chain_labels_witness:
  "eTLD_getPublicSuffix example_eTLD (uri_of ''www.radio.bbc.co.uk'') = Inr ''co.uk'' \<and>
   invoked_on example_eTLD (uri_of ''www.radio.bbc.co.uk'') never None =
     [''www.radio.bbc.co.uk'', ''radio.bbc.co.uk'', ''bbc.co.uk''] \<and>
   sorted_wrt (\<lambda>a b. length (split_dot b) < length (split_dot a))
     (invoked_on example_eTLD (uri_of ''www.radio.bbc.co.uk'') never None) \<and>
   length (split_dot ''co.uk'') + 1 \<le> length (split_dot ''bbc.co.uk'')"
proof -
  let ?log = "invoked_on example_eTLD (uri_of ''www.radio.bbc.co.uk'') never None"
  have log: "?log = [''www.radio.bbc.co.uk'', ''radio.bbc.co.uk'', ''bbc.co.uk'']"
    by (simp add: invoked_on_def example_walk_www never_def)
  then have mem: "''bbc.co.uk'' \<in> set ?log" by simp
  note c6 = C6_chain_labels [OF example_suffix_www, of never None]
  from c6 mem have "length (split_dot ''co.uk'') + 1 \<le> length (split_dot ''bbc.co.uk'')"
    by blast
  with c6 example_suffix_www log show ?thesis by blast
qed

text \<open>
  C7: when the effective TLD service cannot give a public suffix for the host,
  \<open>checkEachParentDomainString\<close> fails with the error of the service, and the callback,
  whatever it is, is not invoked: the world is the one before the call.
\<close>

theorem C7_no_partial_walk:
  "eTLD_getPublicSuffix eTLD uri = Inl e \<Longrightarrow>
   checkEachParentDomainString eTLD uri stringCallback ignoreSelf w = (Inl e, w)"
  by (simp add: checkEachParentDomainString_def)

theorem C7_no_partial_walk_witness:
  "eTLD_getPublicSuffix example_eTLD (uri_of '''') = Inl DomainResolutionError \<and>
   checkEachParentDomainString example_eTLD (uri_of '''') (record_calls always) None [] =
     (Inl DomainResolutionError, [])"
proof -
  have h: "eTLD_getPublicSuffix example_eTLD (uri_of '''') = Inl DomainResolutionError"
    by (simp add: example_eTLD_def uri_of_def)
  from C7_no_partial_walk [OF h, of "record_calls always" None "[]"] h
  show ?thesis by blast
qed

text \<open>
  C8, as stated: for every channel whose lookup fails, \<open>isThirdPartyChannel\<close> returns
  false. For a channel whose URL is in \<open>fakeThirdPartyURLs\<close> it returns true, also
  when the lookup of the service fails for that channel: the list is tested first and
  the service is not asked.
\<close>

theorem C8_fixture_channel_is_third_party:
  "tpu_isThirdPartyChannel example_ThirdPartyUtil fixture_channel [] =
     (Inl ContextLookupError, [''http://localhost:8099/test-request-3rd-party-cookieblock.sjs'']) \<and>
   isThirdPartyChannel example_ThirdPartyUtil fixture_channel [] = (Inr True, [])"
  by (simp add: isThirdPartyChannel_def example_ThirdPartyUtil_def fixture_channel_def
      fakeThirdPartyURLs_def)

text \<open>
  C8, amended: for every channel whose URL is not in \<open>fakeThirdPartyURLs\<close> and whose
  lookup fails, \<open>isThirdPartyChannel\<close> returns false; and for every channel it returns
  a boolean: no error of the lookup reaches the caller.
\<close>

theorem C8_fail_open:
  "(spec (URI channel) \<notin> set fakeThirdPartyURLs \<and>
    tpu_isThirdPartyChannel ThirdPartyUtil channel w = (Inl e, w') \<longrightarrow>
      isThirdPartyChannel ThirdPartyUtil channel w = (Inr False, w')) \<and>
   (\<exists>b w''. isThirdPartyChannel ThirdPartyUtil channel w = (Inr b, w''))"
  by (cases "tpu_isThirdPartyChannel ThirdPartyUtil channel w")
     (auto simp: isThirdPartyChannel_def indexOf_mem split: sum.splits)

theorem C8_fail_open_witness:
  "spec (URI example_channel) \<notin> set fakeThirdPartyURLs \<and>
   tpu_isThirdPartyChannel example_ThirdPartyUtil example_channel [] =
     (Inl ContextLookupError, [''http://tracker.example.co.uk/pixel.gif'']) \<and>
   isThirdPartyChannel example_ThirdPartyUtil example_channel [] =
     (Inr False, [''http://tracker.example.co.uk/pixel.gif''])"
proof -
  have a: "spec (URI example_channel) \<notin> set fakeThirdPartyURLs"
    by (simp add: example_channel_def fakeThirdPartyURLs_def)
  have b: "tpu_isThirdPartyChannel example_ThirdPartyUtil example_channel [] =
     (Inl ContextLookupError, [''http://tracker.example.co.uk/pixel.gif''])"
    by (simp add: example_ThirdPartyUtil_def example_channel_def)
  from C8_fail_open [of example_channel example_ThirdPartyUtil "[]" ContextLookupError
      "[''http://tracker.example.co.uk/pixel.gif'']"] a b
  show ?thesis by blast
qed

text \<open>
  C9: for every valid host \<open>h\<close>, one whose base domain is computed,
  \<open>getParentDomain(getBaseDomain(h))\<close> is \<open>getBaseDomain(h)\<close>. The services are the
  oracle of the specification, for any public suffix list. \<open>getParentDomain\<close> takes a
  URI: \<open>bu\<close> is any URI whose host is the base domain.
\<close>

theorem C9_parent_of_base_domain:
  assumes "getBaseDomain (spec_ThirdPartyUtil registry lookup) uri = Inr b"
    and "host bu = b"
  shows "getParentDomain (spec_eTLD registry) bu =
    getBaseDomain (spec_ThirdPartyUtil registry lookup) uri"
proof -
  let ?labels = "split_dot (host uri)"
  from assms(1) obtain s where s: "longest_suffix registry ?labels = Some s"
    and len: "length s < length ?labels"
    and b: "b = join_dot (drop (length ?labels - (length s + 1)) ?labels)"
    by (auto simp: getBaseDomain_def spec_ThirdPartyUtil_def spec_baseDomain_def Let_def
        split: option.splits if_splits)
  define bl where "bl = drop (length ?labels - (length s + 1)) ?labels"
  from len have bl_len: "length bl = length s + 1" by (simp add: bl_def)
  then have bl_ne: "bl \<noteq> []" by auto
  have b_bl: "b = join_dot bl" by (simp add: b bl_def)
  have "\<And>l. l \<in> set bl \<Longrightarrow> CHR ''.'' \<notin> set l"
    unfolding bl_def by (rule drop_split_dotfree)
  with bl_ne have split_b: "split_dot (join_dot bl) = bl" by (rule split_join_dot)
  have s_props: "s \<noteq> [] \<and> length s \<le> length ?labels \<and> s = drop (length ?labels - length s) ?labels"
    using s by (rule longest_suffix_Some)
  then have "\<And>l. l \<in> set s \<Longrightarrow> CHR ''.'' \<notin> set l"
    using drop_split_dotfree [of _ "length ?labels - length s" "host uri"] by simp
  with s_props have split_s: "split_dot (join_dot s) = s" by (simp add: split_join_dot)
  have s_bl: "longest_suffix registry bl = Some s"
    unfolding bl_def using s by (rule longest_suffix_skip) simp
  have suffix: "eTLD_getPublicSuffix (spec_eTLD registry) bu = Inr (join_dot s)"
    by (simp add: spec_eTLD_def spec_publicSuffix_def assms(2) b_bl split_b s_bl)
  have base: "eTLD_getBaseDomain (spec_eTLD registry) bu = Inr b"
    by (simp add: spec_eTLD_def spec_baseDomain_def assms(2) b_bl split_b s_bl bl_len)
  have "getParentDomain (spec_eTLD registry) bu = Inr b"
    by (simp add: getParentDomain_def suffix split_s assms(2) base split_b [folded b_bl] bl_len)
  with assms(1) show ?thesis by simp
qed

theorem C9_parent_of_base_domain_witness:
  "getBaseDomain (spec_ThirdPartyUtil example_registry (tpu_isThirdPartyChannel example_ThirdPartyUtil))
     (uri_of ''www.radio.bbc.co.uk'') = Inr ''bbc.co.uk'' \<and>
   host (uri_of ''bbc.co.uk'') = ''bbc.co.uk'' \<and>
   eTLD_getPublicSuffix (spec_eTLD example_registry) (uri_of ''bbc.co.uk'') = Inr ''co.uk'' \<and>
   getParentDomain (spec_eTLD example_registry) (uri_of ''bbc.co.uk'') = Inr ''bbc.co.uk''"
proof -
  have a: "getBaseDomain (spec_ThirdPartyUtil example_registry (tpu_isThirdPartyChannel example_ThirdPartyUtil))
     (uri_of ''www.radio.bbc.co.uk'') = Inr ''bbc.co.uk''"
    by (simp add: getBaseDomain_def spec_ThirdPartyUtil_def spec_baseDomain_def uri_of_def
        example_registry_def)
  have b: "host (uri_of ''bbc.co.uk'') = ''bbc.co.uk''" by (simp add: uri_of_def)
  have c: "eTLD_getPublicSuffix (spec_eTLD example_registry) (uri_of ''bbc.co.uk'') = Inr ''co.uk''"
    by (simp add: spec_eTLD_def spec_publicSuffix_def uri_of_def example_registry_def)
  from C9_parent_of_base_domain [OF a b] a b c show ?thesis by simp
qed

text \<open>
  C10: for a host with as many labels as its public suffix, a bare public suffix,
  \<open>checkEachParentDomainString\<close> returns false and does not invoke the callback,
  whatever the callback and whether \<open>ignoreSelf\<close> is given, true or false.
\<close>

theorem C10_bare_suffix:
  assumes "eTLD_getPublicSuffix eTLD uri = Inr suffix"
    and "length (split_dot (host uri)) = length (split_dot suffix)"
  shows "checkEachParentDomainString eTLD uri stringCallback ignoreSelf w = (Inr False, w)"
proof -
  have "length (shift (split_dot (host uri))) \<le> length (split_dot suffix)"
    using assms(2) by (auto simp: shift_def split: list.splits)
  then show ?thesis
    using assms by (simp add: checkEachParentDomainString_def Let_def parent_loop_too_short)
qed

theorem C10_bare_suffix_witness:
  "eTLD_getPublicSuffix example_eTLD (uri_of ''co.uk'') = Inr ''co.uk'' \<and>
   length (split_dot (host (uri_of ''co.uk''))) = length (split_dot ''co.uk'') \<and>
   checkEachParentDomainString example_eTLD (uri_of ''co.uk'') (record_calls always) None [] =
     (Inr False, []) \<and>
   checkEachParentDomainString example_eTLD (uri_of ''co.uk'') (record_calls always) (Some False) [] =
     (Inr False, []) \<and>
   checkEachParentDomainString example_eTLD (uri_of ''co.uk'') (record_calls always) (Some True) [] =
     (Inr False, [])"
proof -
  have len: "length (split_dot (host (uri_of ''co.uk''))) = length (split_dot ''co.uk'')"
    by (simp add: uri_of_def)
  note c10 = C10_bare_suffix [OF example_suffix_co_uk len, of "record_calls always" _ "[]"]
  from c10 [of None] c10 [of "Some False"] c10 [of "Some True"] example_suffix_co_uk len
  show ?thesis by blast
qed

end
